theory Spec2Isabelle
  imports Main "HOL-Library.Word"
begin

section \<open>Strings of the program\<close>

text \<open>
  A TypeScript string is a sequence of UTF-16 code units, and \<^verbatim>\<open>length\<close> and the
  \<^verbatim>\<open>maxLength\<close> attribute count code units.  A string is modelled as a list of 16-bit words.
\<close>

type_synonym jschar = "16 word"
type_synonym jsstring = "jschar list"

text \<open>Literals of the source are written \<open>js ''...''\<close>: every character of an ASCII literal is
  one code unit.\<close>

definition js :: "string \<Rightarrow> jsstring" where
  "js cs = map of_char cs"

text \<open>
  \<^verbatim>\<open>String.prototype.trim\<close> removes, at both ends, the code points of the ECMAScript
  productions WhiteSpace (TAB, VT, FF, ZWNBSP and the category Zs) and LineTerminator
  (LF, CR, LS, PS).  All of them are single code units.
\<close>

definition isWhiteSpace :: "jschar \<Rightarrow> bool" where
  "isWhiteSpace c \<longleftrightarrow>
     c \<in> {0x0009, 0x000A, 0x000B, 0x000C, 0x000D, 0x0020, 0x00A0, 0x1680,
          0x2028, 0x2029, 0x202F, 0x205F, 0x3000, 0xFEFF}
     \<or> (0x2000 \<le> c \<and> c \<le> 0x200A)"

definition trim :: "jsstring \<Rightarrow> jsstring" where
  "trim s = rev (dropWhile isWhiteSpace (rev (dropWhile isWhiteSpace s)))"

section \<open>The data model (src/types/Todo.ts)\<close>

text \<open>\<^verbatim>\<open>Date.now()\<close> is an integer number of milliseconds; a \<^verbatim>\<open>Date\<close> is modelled by
  its time value.\<close>

type_synonym date = int

record todo =
  id' :: int
  text' :: jsstring
  completed :: bool
  createdAt :: date

section \<open>The state of the App component (src/App.tsx)\<close>

record app =
  todos :: "todo list"
  editingId :: "int option"
  editText :: jsstring

definition initial :: app where
  "initial = \<lparr>todos = [], editingId = None, editText = []\<rparr>"

text \<open>\<^verbatim>\<open>addTodo\<close>: the two clock readings \<^verbatim>\<open>Date.now()\<close> and \<^verbatim>\<open>new Date()\<close> are
  arguments.\<close>

definition addTodo :: "int \<Rightarrow> date \<Rightarrow> jsstring \<Rightarrow> app \<Rightarrow> app" where
  "addTodo now created txt s =
     (let newTodo = \<lparr>id' = now, text' = trim txt, completed = False, createdAt = created\<rparr>
      in s\<lparr>todos := todos s @ [newTodo]\<rparr>)"

definition toggleTodo :: "int \<Rightarrow> app \<Rightarrow> app" where
  "toggleTodo i s =
     s\<lparr>todos := map (\<lambda>t. if id' t = i then t\<lparr>completed := \<not> completed t\<rparr> else t) (todos s)\<rparr>"

definition deleteTodo :: "int \<Rightarrow> app \<Rightarrow> app" where
  "deleteTodo i s = s\<lparr>todos := filter (\<lambda>t. id' t \<noteq> i) (todos s)\<rparr>"

definition startEditing :: "int \<Rightarrow> jsstring \<Rightarrow> app \<Rightarrow> app" where
  "startEditing i currentText s = s\<lparr>editingId := Some i, editText := currentText\<rparr>"

definition setEditText :: "jsstring \<Rightarrow> app \<Rightarrow> app" where
  "setEditText txt s = s\<lparr>editText := txt\<rparr>"

definition cancelEdit :: "app \<Rightarrow> app" where
  "cancelEdit s = s\<lparr>editingId := None, editText := []\<rparr>"

text \<open>\<^verbatim>\<open>saveEdit\<close>: a string is truthy exactly when it is not empty.\<close>

definition saveEdit :: "app \<Rightarrow> app" where
  "saveEdit s =
     (case editingId s of
        None \<Rightarrow> s
      | Some i \<Rightarrow>
          if trim (editText s) \<noteq> [] then
            cancelEdit
              (s\<lparr>todos := map (\<lambda>t. if id' t = i then t\<lparr>text' := trim (editText s)\<rparr> else t)
                              (todos s)\<rparr>)
          else s)"

section \<open>The add form (TodoForm, src/components)\<close>

text \<open>
  \<^verbatim>\<open>handleSubmit\<close> of \<^verbatim>\<open>TodoForm\<close>: the component state is the string \<^verbatim>\<open>input\<close>,
  \<^verbatim>\<open>onAddTodo\<close> is \<^verbatim>\<open>addTodo\<close>.  The result is the new input and the new App state.
\<close>

definition handleSubmit :: "int \<Rightarrow> date \<Rightarrow> jsstring \<times> app \<Rightarrow> jsstring \<times> app" where
  "handleSubmit now created p =
     (let input = fst p; s = snd p; trimmedInput = trim input
      in if trimmedInput \<noteq> [] then ([], addTodo now created trimmedInput s) else (input, s))"

text \<open>
  The \<^verbatim>\<open>TodoForm\<close> printed in the walkthrough (src/unnamed/part_000) keeps a second state
  variable \<^verbatim>\<open>error\<close> of type \<^verbatim>\<open>string | null\<close>; the result is the new input, the new
  error and the new App state.
\<close>

definition handleSubmit_walkthrough ::
  "int \<Rightarrow> date \<Rightarrow> jsstring \<times> jsstring option \<times> app \<Rightarrow> jsstring \<times> jsstring option \<times> app" where
  "handleSubmit_walkthrough now created p =
     (let input = fst p; s = snd (snd p); trimmedInput = trim input
      in if trimmedInput = [] then (input, Some (js ''Todo cannot be empty.''), s)
         else ([], None, addTodo now created trimmedInput s))"

text \<open>The attribute \<^verbatim>\<open>maxLength={200}\<close> of the add form's input element.\<close>

definition maxLength :: nat where
  "maxLength = 200"

section \<open>The events of the rendered page\<close>

text \<open>
  \<^verbatim>\<open>App\<close> always renders the add form.  It renders \<^verbatim>\<open>EditTodoForm\<close> when
  \<^verbatim>\<open>editingId !== null\<close> and \<^verbatim>\<open>TodoList\<close> otherwise; \<^verbatim>\<open>TodoList\<close> renders one
  \<^verbatim>\<open>TodoItem\<close> for each record, whose three handlers pass \<^verbatim>\<open>todo.id\<close> and
  \<^verbatim>\<open>todo.text\<close> of that record.  An event names the control that fired:
  \<^item> \<open>Submit input now created\<close>: the add form is submitted with \<open>input\<close> typed in,
    the clock readings being \<open>now\<close> and \<open>created\<close>.  \<open>handleSubmit\<close> has no test on the
    length; the guard \<open>length input \<le> maxLength\<close> is the browser, which lets no more than
    \<^verbatim>\<open>maxLength\<close> code units be typed into that input element;
  \<^item> \<open>ToggleClick k\<close>, \<open>EditClick k\<close>, \<open>DeleteClick k\<close>: a control of the \<open>k\<close>-th
    item of the list;
  \<^item> \<open>Change txt\<close>, \<open>SaveSubmit\<close>, \<open>CancelClick\<close>: the controls of the edit form
    (\<^verbatim>\<open>onChange={setEditText}\<close>, \<^verbatim>\<open>onSave={saveEdit}\<close>, \<^verbatim>\<open>onCancel={cancelEdit}\<close>).
  \<open>dispatch\<close> is \<open>None\<close> when the control is not on the page.

  \<^verbatim>\<open>TodoList\<close> gives every item the key \<^verbatim>\<open>todo.id\<close>.  The items on the page are the
  records of \<open>todos\<close>, one for one, as long as these keys are pairwise distinct, and they
  are so throughout a run whose clock readings are pairwise distinct.  When two records
  share an id the items React keeps are not determined by \<open>todos\<close> (an item of a removed
  record can stay on the page), and the list events below do not describe that page:
  what is stated about all runs of the page is stated for runs with pairwise distinct clock
  readings.
\<close>

datatype event =
    Submit jsstring int date
  | ToggleClick nat
  | EditClick nat
  | DeleteClick nat
  | Change jsstring
  | SaveSubmit
  | CancelClick

fun dispatch :: "event \<Rightarrow> app \<Rightarrow> app option" where
  "dispatch (Submit input now created) s =
     (if length input \<le> maxLength then Some (snd (handleSubmit now created (input, s))) else None)"
| "dispatch (ToggleClick k) s =
     (if editingId s = None \<and> k < length (todos s)
      then Some (toggleTodo (id' (todos s ! k)) s) else None)"
| "dispatch (EditClick k) s =
     (if editingId s = None \<and> k < length (todos s)
      then Some (startEditing (id' (todos s ! k)) (text' (todos s ! k)) s) else None)"
| "dispatch (DeleteClick k) s =
     (if editingId s = None \<and> k < length (todos s)
      then Some (deleteTodo (id' (todos s ! k)) s) else None)"
| "dispatch (Change txt) s =
     (if editingId s \<noteq> None then Some (setEditText txt s) else None)"
| "dispatch SaveSubmit s =
     (if editingId s \<noteq> None then Some (saveEdit s) else None)"
| "dispatch CancelClick s =
     (if editingId s \<noteq> None then Some (cancelEdit s) else None)"

fun run :: "event list \<Rightarrow> app \<Rightarrow> app option" where
  "run [] s = Some s"
| "run (e # es) s = (case dispatch e s of None \<Rightarrow> None | Some s' \<Rightarrow> run es s')"

text \<open>The clock readings \<^verbatim>\<open>Date.now()\<close> taken in a run: \<^verbatim>\<open>addTodo\<close> reads the clock,
  and a submission calls it when the input is not empty after trimming.\<close>

fun readings :: "event list \<Rightarrow> int list" where
  "readings [] = []"
| "readings (Submit input now created # es) =
     (if trim input = [] then readings es else now # readings es)"
| "readings (e # es) = readings es"

text \<open>The target of an active session is the id of a record of the collection.\<close>

definition target_present :: "app \<Rightarrow> bool" where
  "target_present s = (case editingId s of None \<Rightarrow> True | Some j \<Rightarrow> j \<in> set (map id' (todos s)))"

section \<open>Facts about trim\<close>

lemma trim_Nil: "trim [] = []"
  by (simp add: trim_def)

lemma length_trim: "length (trim s) \<le> length s"
proof -
  have "length (trim s) = length (dropWhile isWhiteSpace (rev (dropWhile isWhiteSpace s)))"
    by (simp add: trim_def)
  also have "\<dots> \<le> length (rev (dropWhile isWhiteSpace s))"
    by (rule length_dropWhile_le)
  also have "\<dots> \<le> length s"
    by (simp add: length_dropWhile_le)
  finally show ?thesis .
qed

lemma dropWhile_hd: "dropWhile P s = x # d \<Longrightarrow> \<not> P x"
  by (metis hd_dropWhile list.sel(1) list.distinct(1))

lemma trim_Cons:
  assumes "dropWhile isWhiteSpace s = x # d"
  shows "trim s = x # rev (dropWhile isWhiteSpace (rev d))"
proof -
  have nx: "\<not> isWhiteSpace x" using assms by (rule dropWhile_hd)
  have "dropWhile isWhiteSpace (rev d @ [x]) = dropWhile isWhiteSpace (rev d) @ [x]"
    using nx by (simp add: dropWhile_append3)
  then show ?thesis
    by (simp add: trim_def assms)
qed

lemma trim_idem: "trim (trim s) = trim s"
proof (cases "dropWhile isWhiteSpace s")
  case Nil
  have "trim s = []" unfolding trim_def Nil by simp
  then show ?thesis by (simp add: trim_Nil)
next
  case (Cons x d)
  have nx: "\<not> isWhiteSpace x" using Cons by (rule dropWhile_hd)
  have t: "trim s = x # rev (dropWhile isWhiteSpace (rev d))" using Cons by (rule trim_Cons)
  have "dropWhile isWhiteSpace (trim s) = trim s"
    using nx by (simp add: t)
  then have "trim (trim s) = rev (dropWhile isWhiteSpace (rev (trim s)))"
    by (simp add: trim_def [of "trim s"])
  also have "rev (trim s) = dropWhile isWhiteSpace (rev (dropWhile isWhiteSpace s))"
    by (simp add: trim_def)
  also have "rev (dropWhile isWhiteSpace (dropWhile isWhiteSpace (rev (dropWhile isWhiteSpace s)))) = trim s"
    by (simp only: dropWhile_idem trim_def)
  finally show ?thesis .
qed

lemma trim_empty_iff: "trim s = [] \<longleftrightarrow> (\<forall>c \<in> set s. isWhiteSpace c)"
proof (cases "dropWhile isWhiteSpace s")
  case Nil
  have "trim s = []" unfolding trim_def Nil by simp
  moreover have "\<forall>c \<in> set s. isWhiteSpace c"
    using Nil by (simp only: dropWhile_eq_Nil_conv)
  ultimately show ?thesis by simp
next
  case (Cons x d)
  have "trim s \<noteq> []" using trim_Cons [OF Cons] by simp
  moreover have "\<not> (\<forall>c \<in> set s. isWhiteSpace c)"
    using Cons by (metis dropWhile_eq_Nil_conv list.distinct(1))
  ultimately show ?thesis by simp
qed

lemma trim_js_blank: "trim (js ''   '') = []"
  by (simp add: trim_def js_def isWhiteSpace_def)

lemma trim_js_bar: "trim (js ''bar'') = js ''bar''"
  by (simp add: trim_def js_def isWhiteSpace_def)

lemma map_upd_absent:
  "\<forall>t \<in> set xs. \<not> p t \<Longrightarrow> map (\<lambda>t. if p t then f t else t) xs = xs"
  by (induction xs) auto

section \<open>The handlers of App\<close>

text \<open>
  C10.  For every id and every string \<open>t\<close>, \<open>startEditing i t\<close> makes no existence check and
  cannot fail: afterwards the edit session is active with target \<open>i\<close> and draft \<open>t\<close>
  verbatim, whatever the session was before, and the collection of records is unchanged;
  this holds also when no record has the id \<open>i\<close>.
\<close>

theorem startEditing_sets_session:
  "editingId (startEditing i t s) = Some i \<and> editText (startEditing i t s) = t
   \<and> todos (startEditing i t s) = todos s"
  by (simp add: startEditing_def)

theorem startEditing_sets_session_witness:
  "startEditing 5 (js ''x'') initial = \<lparr>todos = [], editingId = Some 5, editText = js ''x''\<rparr>"
  using startEditing_sets_session [of 5 "js ''x''" initial]
  by (cases "startEditing 5 (js ''x'') initial") (simp add: initial_def)

text \<open>
  C5.  For every string \<open>txt\<close> that is not empty after trimming, \<open>addTodo\<close> appends exactly
  one record at the end of the collection, with text \<open>trim txt\<close>, \<open>completed = False\<close> and
  \<open>createdAt\<close> the time read; the length grows by one and the records that were there
  keep their values and their order.  The session is untouched, and submitting \<open>txt\<close>
  through the add form has the same effect.
\<close>

theorem addTodo_appends:
  assumes "trim txt \<noteq> []"
  shows "todos (addTodo now created txt s)
           = todos s @ [\<lparr>id' = now, text' = trim txt, completed = False, createdAt = created\<rparr>]
         \<and> length (todos (addTodo now created txt s)) = length (todos s) + 1
         \<and> take (length (todos s)) (todos (addTodo now created txt s)) = todos s
         \<and> editingId (addTodo now created txt s) = editingId s
         \<and> editText (addTodo now created txt s) = editText s
         \<and> snd (handleSubmit now created (txt, s)) = addTodo now created txt s"
  using assms by (simp add: addTodo_def handleSubmit_def Let_def trim_idem)

theorem addTodo_appends_witness:
  "trim (js '' bar '') \<noteq> []
   \<and> todos (addTodo 7 8 (js '' bar '') initial)
       = [\<lparr>id' = 7, text' = js ''bar'', completed = False, createdAt = 8\<rparr>]"
proof -
  have t: "trim (js '' bar '') = js ''bar''"
    by (simp add: trim_def js_def isWhiteSpace_def)
  have n: "trim (js '' bar '') \<noteq> []"
    by (simp add: t) (simp add: js_def)
  show ?thesis
    using addTodo_appends [OF n, of 7 8 initial] n by (simp add: t initial_def)
qed

lemma map_upd_present:
  "x \<in> set xs \<Longrightarrow> p x \<Longrightarrow> f x \<in> set (map (\<lambda>t. if p t then f t else t) xs)"
  by (induction xs) auto

lemma map_upd_all:
  "t \<in> set (map (\<lambda>t. if id' t = j then t\<lparr>text' := v\<rparr> else t) xs) \<Longrightarrow> id' t = j \<Longrightarrow> text' t = v"
proof (induction xs)
  case Nil
  then show ?case by simp
next
  case (Cons x xs)
  show ?case
  proof (cases "t = (if id' x = j then x\<lparr>text' := v\<rparr> else x)")
    case True
    with Cons.prems(2) show ?thesis by (cases "id' x = j") simp_all
  next
    case False
    with Cons.prems(1) have "t \<in> set (map (\<lambda>t. if id' t = j then t\<lparr>text' := v\<rparr> else t) xs)"
      by simp
    then show ?thesis using Cons.prems(2) by (rule Cons.IH)
  qed
qed

lemma saveEdit_Some:
  "editingId s = Some i \<Longrightarrow> trim (editText s) \<noteq> [] \<Longrightarrow>
   saveEdit s = \<lparr>todos = map (\<lambda>t. if id' t = i then t\<lparr>text' := trim (editText s)\<rparr> else t) (todos s),
                 editingId = None, editText = []\<rparr>"
  by (simp add: saveEdit_def cancelEdit_def)

lemma saveEdit_target_text:
  assumes "editingId s = Some i" and "trim (editText s) \<noteq> []" and "i \<in> id' ` set (todos s)"
  shows "\<exists>t \<in> set (todos (saveEdit s)). id' t = i \<and> text' t = trim (editText s)"
proof -
  from assms(3) obtain x where x: "x \<in> set (todos s)" "id' x = i" by auto
  let ?f = "\<lambda>t. t\<lparr>text' := trim (editText s)\<rparr>"
  have "?f x \<in> set (map (\<lambda>t. if id' t = i then ?f t else t) (todos s))"
    using x by (intro map_upd_present) 
  then have "?f x \<in> set (todos (saveEdit s))"
    by (simp only: saveEdit_Some [OF assms(1,2)] app.simps)
  moreover have "id' (?f x) = i \<and> text' (?f x) = trim (editText s)"
    using x by simp
  ultimately show ?thesis by blast
qed


lemma js_bar_nonempty: "js ''bar'' \<noteq> []"
  by (simp add: js_def)

lemma scenario_state:
  "editingId (setEditText d (startEditing j c r)) = Some j
   \<and> editText (setEditText d (startEditing j c r)) = d
   \<and> todos (setEditText d (startEditing j c r)) = todos r"
  by (simp add: setEditText_def startEditing_def)

text \<open>
  C6.  With an active session on \<open>i\<close>, a record with id \<open>i\<close> in the collection and a draft
  that is not empty after trimming, \<open>saveEdit\<close> gives every record with id \<open>i\<close> the trimmed
  draft as text, leaves every other record and the order alone, and clears the session.
  In particular after \<open>startEditing j ''foo''\<close>, \<open>setEditText ''bar''\<close>, \<open>saveEdit\<close> the
  record with id \<open>j\<close> has text \<open>''bar''\<close> and no session is active.
\<close>

theorem saveEdit_commits:
  "(editingId s = Some i \<and> i \<in> id' ` set (todos s) \<and> trim (editText s) \<noteq> [] \<longrightarrow>
      length (todos (saveEdit s)) = length (todos s)
      \<and> (\<forall>k < length (todos s).
            todos (saveEdit s) ! k =
              (if id' (todos s ! k) = i then (todos s ! k)\<lparr>text' := trim (editText s)\<rparr>
               else todos s ! k))
      \<and> (\<exists>t \<in> set (todos (saveEdit s)). id' t = i \<and> text' t = trim (editText s))
      \<and> editingId (saveEdit s) = None \<and> editText (saveEdit s) = [])
   \<and> (j \<in> id' ` set (todos r) \<longrightarrow>
      (\<forall>t \<in> set (todos (saveEdit (setEditText (js ''bar'') (startEditing j (js ''foo'') r)))).
          id' t = j \<longrightarrow> text' t = js ''bar'')
      \<and> (\<exists>t \<in> set (todos (saveEdit (setEditText (js ''bar'') (startEditing j (js ''foo'') r)))).
          id' t = j)
      \<and> editingId (saveEdit (setEditText (js ''bar'') (startEditing j (js ''foo'') r))) = None
      \<and> editText (saveEdit (setEditText (js ''bar'') (startEditing j (js ''foo'') r))) = [])"
proof (intro conjI impI)
  assume a: "editingId s = Some i \<and> i \<in> id' ` set (todos s) \<and> trim (editText s) \<noteq> []"
  then have e: "editingId s = Some i" and n: "trim (editText s) \<noteq> []"
    and m: "i \<in> id' ` set (todos s)" by simp_all
  note se = saveEdit_Some [OF e n]
  show "length (todos (saveEdit s)) = length (todos s)"
    by (simp add: se)
  show "\<forall>k < length (todos s).
            todos (saveEdit s) ! k =
              (if id' (todos s ! k) = i then (todos s ! k)\<lparr>text' := trim (editText s)\<rparr>
               else todos s ! k)"
    by (simp add: se)
  show "\<exists>t \<in> set (todos (saveEdit s)). id' t = i \<and> text' t = trim (editText s)"
    using e n m by (rule saveEdit_target_text)
  show "editingId (saveEdit s) = None" by (simp add: se)
  show "editText (saveEdit s) = []" by (simp add: se)
next
  let ?q = "setEditText (js ''bar'') (startEditing j (js ''foo'') r)"
  assume j: "j \<in> id' ` set (todos r)"
  have e: "editingId ?q = Some j" and d: "editText ?q = js ''bar''" and t: "todos ?q = todos r"
    using scenario_state [of "js ''bar''" j "js ''foo''" r] by simp_all
  have n: "trim (editText ?q) \<noteq> []"
    by (simp only: d trim_js_bar js_bar_nonempty not_False_eq_True)
  have se: "saveEdit ?q = \<lparr>todos = map (\<lambda>t. if id' t = j then t\<lparr>text' := js ''bar''\<rparr> else t) (todos r),
                 editingId = None, editText = []\<rparr>"
    using saveEdit_Some [OF e n] by (simp only: d t trim_js_bar)
  have m: "j \<in> id' ` set (todos ?q)" using j by (simp only: t)
  show "\<forall>t \<in> set (todos (saveEdit ?q)). id' t = j \<longrightarrow> text' t = js ''bar''"
  proof (intro ballI impI)
    fix t assume "t \<in> set (todos (saveEdit ?q))" and i: "id' t = j"
    then have "t \<in> set (map (\<lambda>t. if id' t = j then t\<lparr>text' := js ''bar''\<rparr> else t) (todos r))"
      by (simp only: se app.simps)
    then show "text' t = js ''bar''" using i by (rule map_upd_all)
  qed
  have "\<exists>t \<in> set (todos (saveEdit ?q)). id' t = j \<and> text' t = trim (editText ?q)"
    using e n m by (rule saveEdit_target_text)
  then show "\<exists>t \<in> set (todos (saveEdit ?q)). id' t = j" by blast
  show "editingId (saveEdit ?q) = None" unfolding se by simp
  show "editText (saveEdit ?q) = []" unfolding se by simp
qed


theorem saveEdit_commits_witness:
  "saveEdit (setEditText (js ''bar'') (startEditing 5 (js ''foo'') (addTodo 5 6 (js ''foo'') initial)))
     = \<lparr>todos = [\<lparr>id' = 5, text' = js ''bar'', completed = False, createdAt = 6\<rparr>],
        editingId = None, editText = []\<rparr>
   \<and> 5 \<in> id' ` set (todos (addTodo 5 6 (js ''foo'') initial))
   \<and> editingId (saveEdit (setEditText (js ''bar'')
          (startEditing 5 (js ''foo'') (addTodo 5 6 (js ''foo'') initial)))) = None"
proof -
  have m: "5 \<in> id' ` set (todos (addTodo 5 6 (js ''foo'') initial))"
    by (simp add: addTodo_def initial_def)
  have nb: "js ''bar'' \<noteq> []" by (simp add: js_def)
  have e: "saveEdit (setEditText (js ''bar'') (startEditing 5 (js ''foo'') (addTodo 5 6 (js ''foo'') initial)))
     = \<lparr>todos = [\<lparr>id' = 5, text' = js ''bar'', completed = False, createdAt = 6\<rparr>],
        editingId = None, editText = []\<rparr>"
    using nb by (simp add: saveEdit_def setEditText_def startEditing_def addTodo_def initial_def
        cancelEdit_def trim_js_bar)
  from saveEdit_commits [of _ _ 5 "addTodo 5 6 (js ''foo'') initial"] m e show ?thesis
    by blast
qed

text \<open>
  C7.  With an active session whose draft trims to the empty string, \<open>saveEdit\<close> changes
  nothing: the records, the target and the draft are as before, and the handler returns
  normally.  In particular after \<open>startEditing j ''foo''\<close>, \<open>setEditText ''   ''\<close>,
  \<open>saveEdit\<close> the records are unchanged and the session is still on \<open>j\<close> with the draft
  of three spaces.
\<close>

theorem saveEdit_blank_draft:
  "(editingId s = Some i \<and> trim (editText s) = [] \<longrightarrow> saveEdit s = s)
   \<and> saveEdit (setEditText (js ''   '') (startEditing j (js ''foo'') r))
       = r\<lparr>editingId := Some j, editText := js ''   ''\<rparr>"
  by (simp add: saveEdit_def setEditText_def startEditing_def trim_js_blank)

theorem saveEdit_blank_draft_witness:
  "editingId (startEditing 5 (js ''  '') (addTodo 5 6 (js ''foo'') initial)) = Some 5
   \<and> trim (editText (startEditing 5 (js ''  '') (addTodo 5 6 (js ''foo'') initial))) = []
   \<and> saveEdit (startEditing 5 (js ''  '') (addTodo 5 6 (js ''foo'') initial))
       = startEditing 5 (js ''  '') (addTodo 5 6 (js ''foo'') initial)"
proof -
  let ?s = "startEditing 5 (js ''  '') (addTodo 5 6 (js ''foo'') initial)"
  have a: "editingId ?s = Some 5" by (simp add: startEditing_def)
  have b: "trim (editText ?s) = []"
    by (simp add: startEditing_def) (simp add: trim_def js_def isWhiteSpace_def)
  from saveEdit_blank_draft [of ?s 5] a b show ?thesis by blast
qed

text \<open>
  C9.  With an active session whose target matches no record and a draft that is not empty
  after trimming, \<open>saveEdit\<close> leaves the collection unchanged and clears the session: the
  target becomes absent and the draft empty, so the state does change.
\<close>

theorem saveEdit_missing_target:
  assumes "editingId s = Some i" and "i \<notin> id' ` set (todos s)" and "trim (editText s) \<noteq> []"
  shows "todos (saveEdit s) = todos s \<and> editingId (saveEdit s) = None
         \<and> editText (saveEdit s) = [] \<and> saveEdit s \<noteq> s"
proof -
  have "map (\<lambda>t. if id' t = i then t\<lparr>text' := trim (editText s)\<rparr> else t) (todos s) = todos s"
    using assms(2) by (intro map_upd_absent) auto
  then have se: "saveEdit s = cancelEdit s"
    using assms(1,3) by (simp add: saveEdit_def)
  have "editingId (cancelEdit s) \<noteq> editingId s"
    using assms(1) by (simp add: cancelEdit_def)
  then have "cancelEdit s \<noteq> s" by auto
  then show ?thesis by (simp add: se) (simp add: cancelEdit_def)
qed

theorem saveEdit_missing_target_witness:
  "saveEdit \<lparr>todos = [], editingId = Some 5, editText = js ''x''\<rparr>
     = \<lparr>todos = [], editingId = None, editText = []\<rparr>"
proof -
  let ?s = "\<lparr>todos = [], editingId = Some 5, editText = js ''x''\<rparr>"
  have a: "editingId ?s = Some 5" by simp
  have b: "5 \<notin> id' ` set (todos ?s)" by simp
  have c: "trim (editText ?s) \<noteq> []" by (simp add: trim_def js_def isWhiteSpace_def)
  from saveEdit_missing_target [OF a b c] show ?thesis
    by (cases "saveEdit ?s") simp
qed

text \<open>
  C8.  If no record has the id \<open>i\<close>, \<open>toggleTodo i\<close> leaves the whole state unchanged and
  returns normally.  Otherwise it negates \<open>completed\<close> in the record with id \<open>i\<close> (in each
  of them, should several share the id) and keeps that record's id, text and creation
  time; every record with another id, the order of the collection, the session target and
  the draft are unchanged.
\<close>

theorem toggleTodo_frame:
  "(i \<notin> id' ` set (todos s) \<longrightarrow> toggleTodo i s = s)
   \<and> length (todos (toggleTodo i s)) = length (todos s)
   \<and> (\<forall>k < length (todos s).
         todos (toggleTodo i s) ! k =
           (if id' (todos s ! k) = i
            then \<lparr>id' = id' (todos s ! k), text' = text' (todos s ! k),
                  completed = \<not> completed (todos s ! k), createdAt = createdAt (todos s ! k)\<rparr>
            else todos s ! k))
   \<and> map id' (todos (toggleTodo i s)) = map id' (todos s)
   \<and> editingId (toggleTodo i s) = editingId s
   \<and> editText (toggleTodo i s) = editText s"
proof (intro conjI impI)
  assume "i \<notin> id' ` set (todos s)"
  then have "map (\<lambda>t. if id' t = i then t\<lparr>completed := \<not> completed t\<rparr> else t) (todos s) = todos s"
    by (intro map_upd_absent) auto
  then show "toggleTodo i s = s" by (simp add: toggleTodo_def)
next
  show "length (todos (toggleTodo i s)) = length (todos s)"
    by (simp add: toggleTodo_def)
  show "\<forall>k < length (todos s).
         todos (toggleTodo i s) ! k =
           (if id' (todos s ! k) = i
            then \<lparr>id' = id' (todos s ! k), text' = text' (todos s ! k),
                  completed = \<not> completed (todos s ! k), createdAt = createdAt (todos s ! k)\<rparr>
            else todos s ! k)"
    by (simp add: toggleTodo_def)
  show "map id' (todos (toggleTodo i s)) = map id' (todos s)"
    by (simp add: toggleTodo_def comp_def if_distrib [of id'] cong: if_cong)
  show "editingId (toggleTodo i s) = editingId s" by (simp add: toggleTodo_def)
  show "editText (toggleTodo i s) = editText s" by (simp add: toggleTodo_def)
qed

theorem toggleTodo_frame_witness:
  "7 \<notin> id' ` set (todos (addTodo 5 6 (js ''foo'') initial))
   \<and> toggleTodo 7 (addTodo 5 6 (js ''foo'') initial) = addTodo 5 6 (js ''foo'') initial
   \<and> todos (toggleTodo 5 (addTodo 5 6 (js ''foo'') initial)) ! 0
       = \<lparr>id' = 5, text' = js ''foo'', completed = True, createdAt = 6\<rparr>"
proof -
  let ?s = "addTodo 5 6 (js ''foo'') initial"
  have t: "todos ?s = [\<lparr>id' = 5, text' = js ''foo'', completed = False, createdAt = 6\<rparr>]"
    by (simp add: addTodo_def initial_def) (simp add: trim_def js_def isWhiteSpace_def)
  have a: "7 \<notin> id' ` set (todos ?s)" by (simp add: t)
  have b: "toggleTodo 7 ?s = ?s" using toggleTodo_frame [of 7 ?s] a by blast
  have "\<forall>k < length (todos ?s). todos (toggleTodo 5 ?s) ! k =
           (if id' (todos ?s ! k) = 5
            then \<lparr>id' = id' (todos ?s ! k), text' = text' (todos ?s ! k),
                  completed = \<not> completed (todos ?s ! k), createdAt = createdAt (todos ?s ! k)\<rparr>
            else todos ?s ! k)"
    using toggleTodo_frame [of 5 ?s] by blast
  then have c: "todos (toggleTodo 5 ?s) ! 0 = \<lparr>id' = 5, text' = js ''foo'', completed = True, createdAt = 6\<rparr>"
    by (simp add: t)
  from a b c show ?thesis by blast
qed

text \<open>
  C1, as stated, fails on \<open>addTodo\<close>: the handler has no validation and no error result.
  Called with three spaces it appends a record whose text is empty.
\<close>

theorem addTodo_blank_counterexample:
  "trim (js ''   '') = []
   \<and> todos (addTodo 7 8 (js ''   '') initial)
        = [\<lparr>id' = 7, text' = [], completed = False, createdAt = 8\<rparr>]
   \<and> todos (addTodo 7 8 (js ''   '') initial) \<noteq> todos initial"
  by (simp add: addTodo_def initial_def trim_js_blank)

text \<open>
  C1, amended.  The validation is in the add form.  For every input whose trim is empty,
  \<open>handleSubmit\<close> does not call \<open>addTodo\<close>: the input, the collection of records and the
  edit session are exactly as before, and nothing is reported; the form printed in the
  walkthrough leaves them unchanged as well and sets its error message to
  \<open>''Todo cannot be empty.''\<close>.
\<close>

theorem handleSubmit_rejects_blank:
  assumes "trim input = []"
  shows "handleSubmit now created (input, s) = (input, s)
         \<and> handleSubmit_walkthrough now created (input, err, s)
             = (input, Some (js ''Todo cannot be empty.''), s)
         \<and> dispatch (Submit input now created) s = (if length input \<le> maxLength then Some s else None)"
  using assms by (simp add: handleSubmit_def handleSubmit_walkthrough_def)

theorem handleSubmit_rejects_blank_witness:
  "trim (js ''   '') = []
   \<and> handleSubmit 7 8 (js ''   '', initial) = (js ''   '', initial)
   \<and> handleSubmit_walkthrough 7 8 (js ''   '', None, initial)
             = (js ''   '', Some (js ''Todo cannot be empty.''), initial)"
  using handleSubmit_rejects_blank [OF trim_js_blank, of 7 8 initial None] trim_js_blank
  by blast

section \<open>Runs of the page\<close>

lemma handleSubmit_snd:
  "snd (handleSubmit now created (input, s))
     = (if trim input = [] then s else addTodo now created input s)"
  by (simp add: handleSubmit_def addTodo_def trim_idem)

lemma todos_addTodo:
  "todos (addTodo now created input s)
     = todos s @ [\<lparr>id' = now, text' = trim input, completed = False, createdAt = created\<rparr>]"
  by (simp add: addTodo_def)

lemma session_addTodo:
  "editingId (addTodo now created input s) = editingId s
   \<and> editText (addTodo now created input s) = editText s"
  by (simp add: addTodo_def)

lemma map_id_upd:
  "(\<And>t. id' (f t) = id' t) \<Longrightarrow> map id' (map (\<lambda>t. if p t then f t else t) xs) = map id' xs"
  by (induction xs) simp_all

lemma ids_toggleTodo: "map id' (todos (toggleTodo i s)) = map id' (todos s)"
  unfolding toggleTodo_def by (simp add: map_id_upd del: map_map)

lemma saveEdit_cases:
  "saveEdit s = s \<or>
   (\<exists>i. editingId s = Some i \<and> trim (editText s) \<noteq> [] \<and>
     saveEdit s = \<lparr>todos = map (\<lambda>t. if id' t = i then t\<lparr>text' := trim (editText s)\<rparr> else t) (todos s),
                   editingId = None, editText = []\<rparr>)"
proof (cases "editingId s")
  case None
  then show ?thesis by (simp add: saveEdit_def)
next
  case (Some i)
  show ?thesis
  proof (cases "trim (editText s) = []")
    case True
    with Some show ?thesis by (simp add: saveEdit_def)
  next
    case False
    with Some show ?thesis using saveEdit_Some [of s i] by simp
  qed
qed

lemma ids_saveEdit: "map id' (todos (saveEdit s)) = map id' (todos s)"
proof -
  from saveEdit_cases [of s] show ?thesis
  proof
    assume "saveEdit s = s" then show ?thesis by simp
  next
    assume "\<exists>i. editingId s = Some i \<and> trim (editText s) \<noteq> [] \<and>
     saveEdit s = \<lparr>todos = map (\<lambda>t. if id' t = i then t\<lparr>text' := trim (editText s)\<rparr> else t) (todos s),
                   editingId = None, editText = []\<rparr>"
    then obtain i where
      "saveEdit s = \<lparr>todos = map (\<lambda>t. if id' t = i then t\<lparr>text' := trim (editText s)\<rparr> else t) (todos s),
                   editingId = None, editText = []\<rparr>" by blast
    then show ?thesis by (simp add: map_id_upd del: map_map)
  qed
qed

subsection \<open>The target of the session\<close>

lemma dispatch_target_present:
  assumes "dispatch e s = Some s1" and "target_present s"
  shows "target_present s1"
proof (cases e)
  case (Submit input now created)
  with assms(1) have s1: "s1 = (if trim input = [] then s else addTodo now created input s)"
    by (simp add: handleSubmit_snd split: if_splits)
  show ?thesis
  proof (cases "trim input = []")
    case True
    with s1 assms(2) show ?thesis by simp
  next
    case False
    with s1 have "s1 = addTodo now created input s" by simp
    then show ?thesis using assms(2)
      by (simp add: target_present_def todos_addTodo session_addTodo split: option.splits)
  qed
next
  case (ToggleClick k)
  with assms(1) have "editingId s1 = None"
    by (simp add: toggleTodo_def split: if_splits) auto
  then show ?thesis by (simp add: target_present_def)
next
  case (EditClick k)
  with assms(1) have "k < length (todos s)" and "s1 = startEditing (id' (todos s ! k)) (text' (todos s ! k)) s"
    by (simp_all split: if_splits)
  then show ?thesis by (simp add: target_present_def startEditing_def)
next
  case (DeleteClick k)
  with assms(1) have "editingId s1 = None"
    by (simp add: deleteTodo_def split: if_splits) auto
  then show ?thesis by (simp add: target_present_def)
next
  case (Change d)
  with assms(1) have "s1 = setEditText d s" by (simp split: if_splits)
  then show ?thesis using assms(2) by (simp add: target_present_def setEditText_def split: option.splits)
next
  case SaveSubmit
  with assms(1) have s1: "s1 = saveEdit s" by (simp split: if_splits)
  from saveEdit_cases [of s] show ?thesis
  proof
    assume "saveEdit s = s" with s1 assms(2) show ?thesis by simp
  next
    assume "\<exists>i. editingId s = Some i \<and> trim (editText s) \<noteq> [] \<and>
     saveEdit s = \<lparr>todos = map (\<lambda>t. if id' t = i then t\<lparr>text' := trim (editText s)\<rparr> else t) (todos s),
                   editingId = None, editText = []\<rparr>"
    then have "editingId (saveEdit s) = None" by auto
    with s1 show ?thesis by (simp add: target_present_def)
  qed
next
  case CancelClick
  with assms(1) have "s1 = cancelEdit s" by (simp split: if_splits)
  then show ?thesis by (simp add: target_present_def cancelEdit_def)
qed

lemma run_target_present:
  "run es s = Some s1 \<Longrightarrow> target_present s \<Longrightarrow> target_present s1"
proof (induction es arbitrary: s)
  case Nil
  then show ?case by simp
next
  case (Cons e es)
  from Cons.prems(1) obtain s2 where d: "dispatch e s = Some s2" and r: "run es s2 = Some s1"
    by (auto split: option.splits)
  from d Cons.prems(2) have "target_present s2" by (rule dispatch_target_present)
  with r show ?case by (rule Cons.IH)
qed


lemma trim_js_x: "trim (js ''x'') = js ''x''"
  by (simp add: trim_def js_def isWhiteSpace_def)

lemma js_x_nonempty: "js ''x'' \<noteq> []"
  by (simp add: js_def)

lemma length_js_x: "length (js ''x'') \<le> maxLength"
  by (simp add: js_def maxLength_def)

lemma dispatch_submit_x:
  "dispatch (Submit (js ''x'') 5 5) initial
     = Some \<lparr>todos = [\<lparr>id' = 5, text' = js ''x'', completed = False, createdAt = 5\<rparr>],
             editingId = None, editText = []\<rparr>"
  by (simp add: handleSubmit_snd length_js_x trim_js_x js_x_nonempty addTodo_def initial_def)

lemma dispatch_edit_x:
  "dispatch (EditClick 0)
     \<lparr>todos = [\<lparr>id' = 5, text' = js ''x'', completed = False, createdAt = 5\<rparr>],
       editingId = None, editText = []\<rparr>
     = Some \<lparr>todos = [\<lparr>id' = 5, text' = js ''x'', completed = False, createdAt = 5\<rparr>],
             editingId = Some 5, editText = js ''x''\<rparr>"
  by (simp add: startEditing_def)

lemma run_submit_edit:
  "run [Submit (js ''x'') 5 5, EditClick 0] initial
     = Some \<lparr>todos = [\<lparr>id' = 5, text' = js ''x'', completed = False, createdAt = 5\<rparr>],
             editingId = Some 5, editText = js ''x''\<rparr>"
  by (simp add: dispatch_submit_x dispatch_edit_x del: dispatch.simps)

text \<open>
  C2, as stated, fails: with the session on the record 5 (a state reached by adding the
  record and clicking its edit button), \<open>deleteTodo 5\<close> removes the record and leaves the
  session on 5 with its draft; the session now names no record, and a following
  \<open>saveEdit\<close> is not a no-op, since it clears the session.
\<close>

theorem deleteTodo_keeps_session_counterexample:
  "run [Submit (js ''x'') 5 5, EditClick 0] initial
     = Some \<lparr>todos = [\<lparr>id' = 5, text' = js ''x'', completed = False, createdAt = 5\<rparr>],
             editingId = Some 5, editText = js ''x''\<rparr>
   \<and> deleteTodo 5 \<lparr>todos = [\<lparr>id' = 5, text' = js ''x'', completed = False, createdAt = 5\<rparr>],
                    editingId = Some 5, editText = js ''x''\<rparr>
       = \<lparr>todos = [], editingId = Some 5, editText = js ''x''\<rparr>
   \<and> 5 \<notin> id' ` set (todos \<lparr>todos = [], editingId = Some 5, editText = js ''x''\<rparr>)
   \<and> saveEdit \<lparr>todos = [], editingId = Some 5, editText = js ''x''\<rparr>
       = \<lparr>todos = [], editingId = None, editText = []\<rparr>
   \<and> saveEdit \<lparr>todos = [], editingId = Some 5, editText = js ''x''\<rparr>
       \<noteq> \<lparr>todos = [], editingId = Some 5, editText = js ''x''\<rparr>"
proof -
  have "deleteTodo 5 \<lparr>todos = [\<lparr>id' = 5, text' = js ''x'', completed = False, createdAt = 5\<rparr>],
                    editingId = Some 5, editText = js ''x''\<rparr>
       = \<lparr>todos = [], editingId = Some 5, editText = js ''x''\<rparr>"
    by (simp add: deleteTodo_def)
  moreover have "5 \<notin> id' ` set (todos \<lparr>todos = [], editingId = Some 5, editText = js ''x''\<rparr>)"
    by simp
  moreover have "saveEdit \<lparr>todos = [], editingId = Some 5, editText = js ''x''\<rparr>
       = \<lparr>todos = [], editingId = None, editText = []\<rparr>"
    by (simp add: saveEdit_def cancelEdit_def trim_js_x js_x_nonempty)
  moreover have "saveEdit \<lparr>todos = [], editingId = Some 5, editText = js ''x''\<rparr>
       \<noteq> \<lparr>todos = [], editingId = Some 5, editText = js ''x''\<rparr>"
    by (simp add: saveEdit_def cancelEdit_def trim_js_x js_x_nonempty)
  ultimately show ?thesis using run_submit_edit by blast
qed

text \<open>
  C2, amended.  \<open>deleteTodo i\<close> removes every record with id \<open>i\<close> and leaves the session
  target and the draft as they were.  The page shows the list, and with it the delete
  buttons, only while no session is active, so in every state reached from the initial
  state through the controls of the page, in a run whose clock readings are pairwise
  distinct, an active session's target is the id of a record in the collection, and no
  delete can fire there.  Should \<open>deleteTodo i\<close> be applied all the same while the session
  is on \<open>i\<close>, a following \<open>saveEdit\<close> leaves the collection unchanged, and clears the
  session when the draft is not empty after trimming.
\<close>

theorem deleteTodo_session:
  "todos (deleteTodo i s) = filter (\<lambda>t. id' t \<noteq> i) (todos s)
   \<and> i \<notin> id' ` set (todos (deleteTodo i s))
   \<and> editingId (deleteTodo i s) = editingId s
   \<and> editText (deleteTodo i s) = editText s
   \<and> (run es initial = Some s1 \<and> distinct (readings es) \<and> editingId s1 = Some j \<longrightarrow>
        j \<in> id' ` set (todos s1) \<and> dispatch (DeleteClick k) s1 = None)
   \<and> (editingId s = Some i \<longrightarrow>
        todos (saveEdit (deleteTodo i s)) = todos (deleteTodo i s)
        \<and> (trim (editText s) \<noteq> [] \<longrightarrow> editingId (saveEdit (deleteTodo i s)) = None
              \<and> editText (saveEdit (deleteTodo i s)) = []))"
proof (intro conjI impI)
  show "todos (deleteTodo i s) = filter (\<lambda>t. id' t \<noteq> i) (todos s)"
    by (simp add: deleteTodo_def)
  show absent: "i \<notin> id' ` set (todos (deleteTodo i s))"
    by (auto simp: deleteTodo_def)
  show "editingId (deleteTodo i s) = editingId s" by (simp add: deleteTodo_def)
  show "editText (deleteTodo i s) = editText s" by (simp add: deleteTodo_def)
  {
    assume a: "run es initial = Some s1 \<and> distinct (readings es) \<and> editingId s1 = Some j"
    have "target_present initial" by (simp add: target_present_def initial_def)
    with a have "target_present s1" by (blast intro: run_target_present)
    with a show "j \<in> id' ` set (todos s1)" by (simp add: target_present_def)
    from a show "dispatch (DeleteClick k) s1 = None" by simp
  }
  {
    assume e: "editingId s = Some i"
    let ?d = "deleteTodo i s"
    have ed: "editingId ?d = Some i" using e by (simp add: deleteTodo_def)
    have "\<forall>t \<in> set (todos ?d). \<not> id' t = i" using absent by blast
    then have m: "map (\<lambda>t. if id' t = i then t\<lparr>text' := trim (editText ?d)\<rparr> else t) (todos ?d) = todos ?d"
      by (rule map_upd_absent)
    show "todos (saveEdit ?d) = todos ?d"
      using ed m by (simp add: saveEdit_def cancelEdit_def)
    assume n: "trim (editText s) \<noteq> []"
    then have nd: "trim (editText ?d) \<noteq> []" by (simp add: deleteTodo_def)
    show "editingId (saveEdit ?d) = None" by (simp add: saveEdit_Some [OF ed nd])
    show "editText (saveEdit ?d) = []" by (simp add: saveEdit_Some [OF ed nd])
  }
qed

theorem deleteTodo_session_witness:
  "run [Submit (js ''x'') 5 5, EditClick 0] initial
     = Some \<lparr>todos = [\<lparr>id' = 5, text' = js ''x'', completed = False, createdAt = 5\<rparr>],
             editingId = Some 5, editText = js ''x''\<rparr>
   \<and> distinct (readings [Submit (js ''x'') 5 5, EditClick 0])
   \<and> 5 \<in> id' ` set (todos \<lparr>todos = [\<lparr>id' = 5, text' = js ''x'', completed = False, createdAt = 5\<rparr>],
             editingId = Some 5, editText = js ''x''\<rparr>)
   \<and> dispatch (DeleteClick 0) \<lparr>todos = [\<lparr>id' = 5, text' = js ''x'', completed = False, createdAt = 5\<rparr>],
             editingId = Some 5, editText = js ''x''\<rparr> = None
   \<and> todos (saveEdit (deleteTodo 5 \<lparr>todos = [\<lparr>id' = 5, text' = js ''x'', completed = False, createdAt = 5\<rparr>],
             editingId = Some 5, editText = js ''x''\<rparr>)) = []"
proof -
  let ?s = "\<lparr>todos = [\<lparr>id' = 5, text' = js ''x'', completed = False, createdAt = 5\<rparr>],
             editingId = Some 5, editText = js ''x''\<rparr>"
  have e: "editingId ?s = Some 5" by simp
  have d: "todos (deleteTodo 5 ?s) = []" by (simp add: deleteTodo_def)
  have r: "distinct (readings [Submit (js ''x'') 5 5, EditClick 0])"
    by (simp add: trim_js_x js_x_nonempty)
  have m: "5 \<in> id' ` set (todos ?s) \<and> dispatch (DeleteClick 0) ?s = None"
    using deleteTodo_session [of 5 ?s "[Submit (js ''x'') 5 5, EditClick 0]" ?s 5 0]
      run_submit_edit r e by blast
  have "todos (saveEdit (deleteTodo 5 ?s)) = todos (deleteTodo 5 ?s)"
    using deleteTodo_session [of 5 ?s "[Submit (js ''x'') 5 5, EditClick 0]" ?s 5 0] e by blast
  then have "todos (saveEdit (deleteTodo 5 ?s)) = []" by (simp only: d)
  with m r run_submit_edit show ?thesis by blast
qed

subsection \<open>The cases of an event\<close>

lemma dispatch_cases:
  assumes "dispatch e s = Some s1"
  shows "s1 = s
    \<or> (\<exists>input now created. e = Submit input now created \<and> trim input \<noteq> [] \<and> length input \<le> maxLength
          \<and> s1 = addTodo now created input s)
    \<or> (\<exists>i. editingId s = None \<and> s1 = toggleTodo i s)
    \<or> (\<exists>k. k < length (todos s) \<and> s1 = startEditing (id' (todos s ! k)) (text' (todos s ! k)) s)
    \<or> (\<exists>i. editingId s = None \<and> s1 = deleteTodo i s)
    \<or> (\<exists>d. e = Change d \<and> s1 = setEditText d s)
    \<or> (\<exists>i. editingId s = Some i \<and> trim (editText s) \<noteq> [] \<and>
          s1 = \<lparr>todos = map (\<lambda>t. if id' t = i then t\<lparr>text' := trim (editText s)\<rparr> else t) (todos s),
                 editingId = None, editText = []\<rparr>)
    \<or> s1 = cancelEdit s"
proof (cases e)
  case (Submit input now created)
  with assms have "length input \<le> maxLength"
    and "s1 = (if trim input = [] then s else addTodo now created input s)"
    by (simp_all add: handleSubmit_snd split: if_splits)
  with Submit show ?thesis by (cases "trim input = []") simp_all
next
  case (ToggleClick k)
  with assms have "editingId s = None" and "s1 = toggleTodo (id' (todos s ! k)) s"
    by (simp_all split: if_splits)
  then show ?thesis by blast
next
  case (EditClick k)
  with assms have "k < length (todos s)" and "s1 = startEditing (id' (todos s ! k)) (text' (todos s ! k)) s"
    by (simp_all split: if_splits)
  then show ?thesis by blast
next
  case (DeleteClick k)
  with assms have "editingId s = None" and "s1 = deleteTodo (id' (todos s ! k)) s"
    by (simp_all split: if_splits)
  then show ?thesis by blast
next
  case (Change d)
  with assms have "s1 = setEditText d s" by (simp split: if_splits)
  with Change show ?thesis by blast
next
  case SaveSubmit
  with assms have "s1 = saveEdit s" by (simp split: if_splits)
  with saveEdit_cases [of s] show ?thesis by blast
next
  case CancelClick
  with assms have "s1 = cancelEdit s" by (simp split: if_splits)
  then show ?thesis by blast
qed

subsection \<open>The texts of the records\<close>

lemma dropWhile_none: "\<forall>c \<in> set s. \<not> P c \<Longrightarrow> dropWhile P s = s"
  by (cases s) simp_all

lemma trim_no_ws:
  assumes "\<forall>c \<in> set s. \<not> isWhiteSpace c"
  shows "trim s = s"
proof -
  have a: "dropWhile isWhiteSpace s = s" using assms by (rule dropWhile_none)
  have "\<forall>c \<in> set (rev s). \<not> isWhiteSpace c" using assms by simp
  then have b: "dropWhile isWhiteSpace (rev s) = rev s" by (rule dropWhile_none)
  show ?thesis by (simp add: trim_def a b)
qed

lemma not_ws_a: "\<not> isWhiteSpace 0x61"
  by (simp add: isWhiteSpace_def)

lemma trim_long: "trim (replicate 201 0x61) = replicate 201 0x61"
  by (rule trim_no_ws) (simp add: not_ws_a)

lemma trim_js_a: "trim (js ''a'') = js ''a''"
  by (simp add: trim_def js_def isWhiteSpace_def)

text \<open>
  C3.  Every record of a reachable state is to have a text of at most 200 characters.  The
  input of the add form has \<^verbatim>\<open>maxLength={200}\<close>; the input of the edit form has none, and
  \<open>saveEdit\<close> stores the trimmed draft whatever its length.  Adding a record, clicking its
  edit button, typing 201 letters and saving leaves a record whose text has 201 code
  units, more than \<open>maxLength\<close>.
\<close>

theorem edit_form_saves_long_text:
  "run [Submit (js ''a'') 1 1, EditClick 0, Change (replicate 201 0x61), SaveSubmit] initial
     = Some \<lparr>todos = [\<lparr>id' = 1, text' = replicate 201 0x61, completed = False, createdAt = 1\<rparr>],
             editingId = None, editText = []\<rparr>
   \<and> length (text' \<lparr>id' = 1, text' = replicate 201 0x61, completed = False, createdAt = 1\<rparr>) = 201
   \<and> \<not> length (text' \<lparr>id' = 1, text' = replicate 201 0x61, completed = False, createdAt = 1\<rparr>)
         \<le> maxLength"
proof -
  let ?t = "\<lparr>id' = 1, text' = js ''a'', completed = False, createdAt = 1\<rparr>"
  let ?s1 = "\<lparr>todos = [?t], editingId = None, editText = []\<rparr>"
  let ?s2 = "\<lparr>todos = [?t], editingId = Some 1, editText = js ''a''\<rparr>"
  let ?s3 = "\<lparr>todos = [?t], editingId = Some 1, editText = replicate 201 0x61\<rparr>"
  let ?s4 = "\<lparr>todos = [\<lparr>id' = 1, text' = replicate 201 0x61, completed = False, createdAt = 1\<rparr>],
             editingId = None, editText = []\<rparr>"
  have d1: "dispatch (Submit (js ''a'') 1 1) initial = Some ?s1"
    by (simp add: handleSubmit_snd trim_js_a addTodo_def initial_def) (simp add: js_def maxLength_def)
  have d2: "dispatch (EditClick 0) ?s1 = Some ?s2"
    by (simp add: startEditing_def)
  have d3: "dispatch (Change (replicate 201 0x61)) ?s2 = Some ?s3"
    by (simp add: setEditText_def)
  have d4: "dispatch SaveSubmit ?s3 = Some ?s4"
    by (simp add: saveEdit_def cancelEdit_def trim_long)
  have r: "run [Submit (js ''a'') 1 1, EditClick 0, Change (replicate 201 0x61), SaveSubmit] initial = Some ?s4"
    by (simp add: d1 d2 d3 d4 del: dispatch.simps)
  have l: "length (text' \<lparr>id' = 1, text' = replicate 201 0x61, completed = False, createdAt = 1\<rparr>) = 201"
    by simp
  have m: "\<not> length (text' \<lparr>id' = 1, text' = replicate 201 0x61, completed = False, createdAt = 1\<rparr>)
         \<le> maxLength"
    by (simp add: maxLength_def)
  from r l m show ?thesis by blast
qed

subsection \<open>The ids of the records\<close>

lemma readings_Cons: "readings (e # es) = readings [e] @ readings es"
  by (cases e) simp_all

lemma dispatch_ids:
  assumes "dispatch e s = Some s1"
  shows "map id' (todos s1) = map id' (todos s)
    \<or> (\<exists>input now created. e = Submit input now created \<and> trim input \<noteq> []
          \<and> map id' (todos s1) = map id' (todos s) @ [now])
    \<or> (\<exists>i. map id' (todos s1) = map id' (filter (\<lambda>t. id' t \<noteq> i) (todos s)))"
proof -
  from dispatch_cases [OF assms] consider
      "s1 = s"
    | input now created where "e = Submit input now created" "trim input \<noteq> []"
        "s1 = addTodo now created input s"
    | i where "s1 = toggleTodo i s"
    | k where "s1 = startEditing (id' (todos s ! k)) (text' (todos s ! k)) s"
    | i where "s1 = deleteTodo i s"
    | d where "s1 = setEditText d s"
    | i where "s1 = \<lparr>todos = map (\<lambda>t. if id' t = i then t\<lparr>text' := trim (editText s)\<rparr> else t) (todos s),
                 editingId = None, editText = []\<rparr>"
    | "s1 = cancelEdit s"
    by blast
  then show ?thesis
  proof cases
    case 1 then show ?thesis by simp
  next
    case 2 then show ?thesis by (simp add: todos_addTodo)
  next
    case 3 then show ?thesis by (simp only: ids_toggleTodo simp_thms)
  next
    case 4 then show ?thesis by (simp add: startEditing_def)
  next
    case 5
    then have "map id' (todos s1) = map id' (filter (\<lambda>t. id' t \<noteq> i) (todos s))"
      by (simp add: deleteTodo_def)
    then show ?thesis by blast
  next
    case 6 then show ?thesis by (simp add: setEditText_def)
  next
    case 7 
    then have "map id' (todos s1) = map id' (todos s)" by (simp add: map_id_upd del: map_map)
    then show ?thesis by simp
  next
    case 8 then show ?thesis by (simp add: cancelEdit_def)
  qed
qed

lemma run_keeps_distinct_ids:
  "run es s = Some s1 \<Longrightarrow> distinct (map id' (todos s)) \<Longrightarrow> distinct (readings es) \<Longrightarrow>
   set (readings es) \<inter> set (map id' (todos s)) = {} \<Longrightarrow> distinct (map id' (todos s1))"
proof (induction es arbitrary: s)
  case Nil
  then show ?case by simp
next
  case (Cons e es)
  from Cons.prems(1) obtain s2 where d: "dispatch e s = Some s2" and r: "run es s2 = Some s1"
    by (auto split: option.splits)
  from Cons.prems(3) have des: "distinct (readings es)"
    by (simp add: readings_Cons [of e es])
  from Cons.prems(4) have dj: "set (readings es) \<inter> set (map id' (todos s)) = {}"
    by (auto simp: readings_Cons [of e es])
  from dispatch_ids [OF d] consider
      "map id' (todos s2) = map id' (todos s)"
    | input now created where "e = Submit input now created" "trim input \<noteq> []"
        "map id' (todos s2) = map id' (todos s) @ [now]"
    | i where "map id' (todos s2) = map id' (filter (\<lambda>t. id' t \<noteq> i) (todos s))"
    by blast
  then have "distinct (map id' (todos s2)) \<and> set (readings es) \<inter> set (map id' (todos s2)) = {}"
  proof cases
    case 1
    with Cons.prems(2) dj show ?thesis by simp
  next
    case 2
    from 2(1,2) Cons.prems(3) have n1: "now \<notin> set (readings es)" by simp
    from 2(1,2) Cons.prems(4) have n2: "now \<notin> set (map id' (todos s))" by simp
    from n1 n2 dj Cons.prems(2) show ?thesis by (simp add: 2(3))
  next
    case 3
    have "distinct (map id' (filter (\<lambda>t. id' t \<noteq> i) (todos s)))"
      using Cons.prems(2) by (rule distinct_map_filter)
    moreover have "set (map id' (filter (\<lambda>t. id' t \<noteq> i) (todos s))) \<subseteq> set (map id' (todos s))"
      by auto
    ultimately show ?thesis using dj by (simp only: 3) blast
  qed
  then have a: "distinct (map id' (todos s2))"
    and b: "set (readings es) \<inter> set (map id' (todos s2)) = {}" by blast+
  from r a des b show ?case by (rule Cons.IH)
qed

lemma js_short: "length (js ''a'') \<le> maxLength \<and> length (js ''b'') \<le> maxLength"
  by (simp add: js_def maxLength_def)

lemma trim_js_b: "trim (js ''b'') = js ''b''"
  by (simp add: trim_def js_def isWhiteSpace_def)

lemma js_ab_nonempty: "js ''a'' \<noteq> [] \<and> js ''b'' \<noteq> []"
  by (simp add: js_def)

lemma run_two_submits:
  "run [Submit (js ''a'') m c, Submit (js ''b'') n d] initial
     = Some \<lparr>todos = [\<lparr>id' = m, text' = js ''a'', completed = False, createdAt = c\<rparr>,
                      \<lparr>id' = n, text' = js ''b'', completed = False, createdAt = d\<rparr>],
             editingId = None, editText = []\<rparr>"
proof -
  let ?s1 = "\<lparr>todos = [\<lparr>id' = m, text' = js ''a'', completed = False, createdAt = c\<rparr>],
              editingId = None, editText = []\<rparr>"
  have d1: "dispatch (Submit (js ''a'') m c) initial = Some ?s1"
    by (simp add: handleSubmit_snd trim_js_a js_short js_ab_nonempty addTodo_def initial_def)
  have d2: "dispatch (Submit (js ''b'') n d) ?s1
     = Some \<lparr>todos = [\<lparr>id' = m, text' = js ''a'', completed = False, createdAt = c\<rparr>,
                      \<lparr>id' = n, text' = js ''b'', completed = False, createdAt = d\<rparr>],
             editingId = None, editText = []\<rparr>"
    by (simp add: handleSubmit_snd trim_js_b js_short js_ab_nonempty addTodo_def)
  show ?thesis by (simp add: d1 d2 del: dispatch.simps)
qed

text \<open>
  C4, as stated, fails: two submissions that read the same value of the clock give two
  records with the same id.
\<close>

theorem same_clock_counterexample:
  "run [Submit (js ''a'') 1 1, Submit (js ''b'') 1 1] initial
     = Some \<lparr>todos = [\<lparr>id' = 1, text' = js ''a'', completed = False, createdAt = 1\<rparr>,
                      \<lparr>id' = 1, text' = js ''b'', completed = False, createdAt = 1\<rparr>],
             editingId = None, editText = []\<rparr>
   \<and> \<not> distinct (map id'
         (todos \<lparr>todos = [\<lparr>id' = 1, text' = js ''a'', completed = False, createdAt = 1\<rparr>,
                          \<lparr>id' = 1, text' = js ''b'', completed = False, createdAt = 1\<rparr>],
                 editingId = None, editText = []\<rparr>))"
  using run_two_submits [of 1 1 1 1] by simp

text \<open>
  C4, amended.  In every state reached from the initial state through the controls of the
  page, the ids of the records are pairwise distinct provided the clock readings offered
  to the submissions of the run are pairwise distinct.
\<close>

theorem run_distinct:
  assumes "run es initial = Some s" and "distinct (readings es)"
  shows "distinct (map id' (todos s))"
  using assms(1) _ assms(2)
  by (rule run_keeps_distinct_ids) (simp_all add: initial_def)

theorem run_distinct_witness:
  "run [Submit (js ''a'') 1 1, Submit (js ''b'') 2 2] initial
     = Some \<lparr>todos = [\<lparr>id' = 1, text' = js ''a'', completed = False, createdAt = 1\<rparr>,
                      \<lparr>id' = 2, text' = js ''b'', completed = False, createdAt = 2\<rparr>],
             editingId = None, editText = []\<rparr>
   \<and> distinct (readings [Submit (js ''a'') 1 1, Submit (js ''b'') 2 2])
   \<and> distinct (map id'
         [\<lparr>id' = 1, text' = js ''a'', completed = False, createdAt = 1\<rparr>,
          \<lparr>id' = 2, text' = js ''b'', completed = False, createdAt = 2\<rparr>])"
proof -
  have r: "run [Submit (js ''a'') 1 1, Submit (js ''b'') 2 2] initial
     = Some \<lparr>todos = [\<lparr>id' = 1, text' = js ''a'', completed = False, createdAt = 1\<rparr>,
                      \<lparr>id' = 2, text' = js ''b'', completed = False, createdAt = 2\<rparr>],
             editingId = None, editText = []\<rparr>"
    by (rule run_two_submits)
  have d: "distinct (readings [Submit (js ''a'') 1 1, Submit (js ''b'') 2 2])" by simp
  have "distinct (map id' (todos \<lparr>todos = [\<lparr>id' = 1, text' = js ''a'', completed = False, createdAt = 1\<rparr>,
                      \<lparr>id' = 2, text' = js ''b'', completed = False, createdAt = 2\<rparr>],
             editingId = None, editText = []\<rparr>))"
    using r d by (rule run_distinct)
  then have "distinct (map id'
         [\<lparr>id' = 1, text' = js ''a'', completed = False, createdAt = 1\<rparr>,
          \<lparr>id' = 2, text' = js ''b'', completed = False, createdAt = 2\<rparr>])"
    by (simp only: app.simps)
  with r d show ?thesis by blast
qed

end
